theory Spec2Isabelle
  imports Complex_Main "HOL-Library.Sublist" "HOL-Library.Word"
begin

section \<open>Python strings\<close>

text \<open>
  A Python \<open>str\<close> is modelled as a HOL \<open>string\<close>: a list of characters whose code
  points lie in 0..255. The builtins the program calls on strings are written out for
  that range.
\<close>

text \<open>\<open>str.isspace\<close> on one character (code points below 256).\<close>

definition isspace :: "char \<Rightarrow> bool" where
  "isspace c = ((of_char c :: nat) \<in> set [9, 10, 11, 12, 13, 28, 29, 30, 31, 32, 133, 160])"

text \<open>\<open>str.lower\<close> on one character: A-Z and the upper-case letters of 192..222.\<close>

definition lower_char :: "char \<Rightarrow> char" where
  "lower_char c =
     (let n = (of_char c :: nat) in
      if (65 \<le> n \<and> n \<le> 90) \<or> (192 \<le> n \<and> n \<le> 222 \<and> n \<noteq> 215)
      then char_of (n + 32) else c)"

definition lower :: "string \<Rightarrow> string" where
  "lower s = map lower_char s"

text \<open>\<open>str.strip()\<close>: whitespace removed at both ends.\<close>

definition strip :: "string \<Rightarrow> string" where
  "strip s = rev (dropWhile isspace (rev (dropWhile isspace s)))"

text \<open>\<open>s.startswith(p)\<close>, character by character.\<close>

fun startswith :: "string \<Rightarrow> string \<Rightarrow> bool" where
  "startswith s [] = True"
| "startswith [] (p # ps) = False"
| "startswith (c # cs) (p # ps) = (c = p \<and> startswith cs ps)"

text \<open>\<open>p in s\<close>: the pattern is tried at every position of \<open>s\<close>, left to right.\<close>

fun contains :: "string \<Rightarrow> string \<Rightarrow> bool" where
  "contains p [] = (p = [])"
| "contains p (c # cs) = (startswith (c # cs) p \<or> contains p cs)"

text \<open>
  \<open>str.split()\<close> with no argument: the maximal runs of non-whitespace characters, in
  order. \<open>split_acc cur s\<close> scans \<open>s\<close> with the word read so far in \<open>cur\<close>.
\<close>

fun split_acc :: "string \<Rightarrow> string \<Rightarrow> string list" where
  "split_acc cur [] = (if cur = [] then [] else [cur])"
| "split_acc cur (c # cs) =
     (if isspace c then (if cur = [] then split_acc [] cs else cur # split_acc [] cs)
      else split_acc (cur @ [c]) cs)"

definition split :: "string \<Rightarrow> string list" where
  "split s = split_acc [] s"

text \<open>\<open>" ".join(xs)\<close>.\<close>

fun join_sp :: "string list \<Rightarrow> string" where
  "join_sp [] = []"
| "join_sp [x] = x"
| "join_sp (x # y # zs) = x @ '' '' @ join_sp (y # zs)"

section \<open>Fonts and text wrapping\<close>

text \<open>
  The font file at \<open>font_path\<close> is a parameter \<open>fm\<close>: \<open>fm size text\<close> is what
  \<open>ImageFont.truetype(font_path, size).getbbox(text)\<close> returns, the box
  (left, top, right, bottom). A font object is its size.
\<close>

type_synonym bbox = "int \<times> int \<times> int \<times> int"
type_synonym font_file = "int \<Rightarrow> string \<Rightarrow> bbox"
type_synonym region = "int \<times> int \<times> int \<times> int"

text \<open>\<open>font.getbbox(s)[2] - font.getbbox(s)[0]\<close> and \<open>font.getbbox(s)[3] - font.getbbox(s)[1]\<close>.\<close>

definition text_width :: "font_file \<Rightarrow> int \<Rightarrow> string \<Rightarrow> int" where
  "text_width fm font s = (case fm font s of (l, t, r, b) \<Rightarrow> r - l)"

definition text_height :: "font_file \<Rightarrow> int \<Rightarrow> string \<Rightarrow> int" where
  "text_height fm font s = (case fm font s of (l, t, r, b) \<Rightarrow> b - t)"

text \<open>
  \<open>break_word\<close> (app.py 71-86). The loop over the characters carries \<open>segments\<close> and
  \<open>current_segment\<close>; the code after the loop is the empty-list equation.
\<close>

fun break_word_loop :: "font_file \<Rightarrow> int \<Rightarrow> int \<Rightarrow> string list \<Rightarrow> string \<Rightarrow> string \<Rightarrow> string list" where
  "break_word_loop fm font max_width segments current_segment [] =
     (if current_segment \<noteq> [] then segments @ [current_segment] else segments)"
| "break_word_loop fm font max_width segments current_segment (char # rest) =
     (let test_segment = current_segment @ [char] in
      if text_width fm font test_segment \<le> max_width
      then break_word_loop fm font max_width segments test_segment rest
      else break_word_loop fm font max_width
             (if current_segment \<noteq> [] then segments @ [current_segment] else segments)
             [char] rest)"

definition break_word :: "font_file \<Rightarrow> string \<Rightarrow> int \<Rightarrow> int \<Rightarrow> string list" where
  "break_word fm word font max_width = break_word_loop fm font max_width [] [] word"

text \<open>
  \<open>draw_centered_wrapped_text\<close> (app.py 88-129), first loop (98-105): the list
  \<open>words\<close>, in which a word wider than the region is replaced by its segments.
\<close>

fun wrap_words :: "font_file \<Rightarrow> int \<Rightarrow> int \<Rightarrow> string list \<Rightarrow> string list \<Rightarrow> string list" where
  "wrap_words fm font max_width words [] = words"
| "wrap_words fm font max_width words (word # rest) =
     (if text_width fm font word > max_width
      then wrap_words fm font max_width (words @ break_word fm word font max_width) rest
      else wrap_words fm font max_width (words @ [word]) rest)"

text \<open>Second loop (106-118): the list \<open>lines\<close>.\<close>

fun wrap_lines :: "font_file \<Rightarrow> int \<Rightarrow> int \<Rightarrow> string list \<Rightarrow> string \<Rightarrow> string list \<Rightarrow> string list" where
  "wrap_lines fm font max_width lines current_line [] =
     (if current_line \<noteq> [] then lines @ [current_line] else lines)"
| "wrap_lines fm font max_width lines current_line (word # rest) =
     (let test_line = current_line @ (if current_line \<noteq> [] then '' '' else []) @ word in
      if text_width fm font test_line \<le> max_width
      then wrap_lines fm font max_width lines test_line rest
      else wrap_lines fm font max_width
             (if current_line \<noteq> [] then lines @ [current_line] else lines)
             word rest)"

text \<open>The lines the routine draws for a text in a region.\<close>

definition wrapped_lines :: "font_file \<Rightarrow> region \<Rightarrow> string \<Rightarrow> int \<Rightarrow> string list" where
  "wrapped_lines fm region text font =
     (case region of (x1, y1, x2, y2) \<Rightarrow>
        let max_width = x2 - x1;
            words = wrap_words fm font max_width [] (split text)
        in wrap_lines fm font max_width [] [] words)"

text \<open>
  What is drawn on an image: the calls of \<open>rounded_rectangle\<close> and \<open>text\<close>, in order.
  An image created fully transparent on which nothing is drawn stays fully transparent.
\<close>

datatype colour = RGB nat nat nat | RGBA nat nat nat nat

datatype draw_op =
    RoundedRectangle region int "colour option" "colour option" int
  | DrawText "int \<times> int" string int colour

text \<open>The third loop (119-129): one \<open>text\<close> call per line, centred in the region.\<close>

fun draw_lines :: "font_file \<Rightarrow> int \<Rightarrow> int \<Rightarrow> int \<Rightarrow> int \<Rightarrow> colour \<Rightarrow> int \<Rightarrow> string list \<Rightarrow> draw_op list" where
  "draw_lines fm font x1 max_width step text_color start_y [] = []"
| "draw_lines fm font x1 max_width step text_color start_y (line # rest) =
     (let line_width = text_width fm font line;
          x_centered = x1 + (max_width - line_width) div 2
      in DrawText (x_centered, start_y) line font text_color
         # draw_lines fm font x1 max_width step text_color (start_y + step) rest)"

definition draw_centered_wrapped_text :: "font_file \<Rightarrow> region \<Rightarrow> string \<Rightarrow> int \<Rightarrow> colour \<Rightarrow> draw_op list" where
  "draw_centered_wrapped_text fm region text font text_color =
     (case region of (x1, y1, x2, y2) \<Rightarrow>
        let max_width = x2 - x1;
            lines = wrapped_lines fm region text font;
            line_height = text_height fm font ''Ay'';
            spacing = 5;
            total_height = int (length lines) * line_height + (int (length lines) - 1) * spacing;
            start_y = y1 + ((y2 - y1) - total_height) div 2
        in draw_lines fm font x1 max_width (line_height + spacing) text_color start_y lines)"

section \<open>Font-size search\<close>

text \<open>
  \<open>adjust_font_size\<close> (app.py 136-146). The loop variable \<open>font_size\<close> starts at
  \<open>max_size\<close>; the function returns the font it loads, that is, its size.
\<close>

function adjust_font_size_loop :: "string \<Rightarrow> font_file \<Rightarrow> int \<Rightarrow> int \<Rightarrow> int \<Rightarrow> int" where
  "adjust_font_size_loop text fm font_size region_width region_height =
     (if font_size > 5 then
        (if text_width fm font_size text \<le> region_width \<and>
            text_height fm font_size text \<le> region_height
         then font_size
         else adjust_font_size_loop text fm (font_size - 1) region_width region_height)
      else font_size)"
  by pat_completeness auto
termination
  by (relation "measure (\<lambda>(text, fm, font_size, rw, rh). nat (font_size - 5))") auto

definition adjust_font_size :: "string \<Rightarrow> font_file \<Rightarrow> int \<Rightarrow> int \<Rightarrow> int \<Rightarrow> int" where
  "adjust_font_size text fm max_size region_width region_height =
     adjust_font_size_loop text fm max_size region_width region_height"

section \<open>Clip concatenation\<close>

text \<open>
  A clip, as far as the sequencer reads it: its \<open>duration\<close> in seconds, its \<open>start\<close> on
  the parent's timeline and its frame \<open>size\<close>. Times are real numbers.
\<close>

record clip =
  clip_duration :: real
  clip_start :: real
  clip_size :: "int \<times> int"

text \<open>What \<open>CompositeVideoClip(new_clips, size=...).with_duration(start)\<close> holds.\<close>

record composite =
  layers :: "clip list"
  comp_size :: "int \<times> int"
  comp_duration :: real

text \<open>
  The errors of the model. \<open>IndexError\<close> and \<open>ZeroDivisionError\<close> are Python's,
  \<open>SystemExit\<close> is \<open>sys.exit\<close> with its message. \<open>EmptyInputError\<close> is the error the
  specification names for the sequencer; no path of the program produces it.
\<close>

datatype error = IndexError | ZeroDivisionError | SystemExit string | EmptyInputError

text \<open>
  \<open>concatenate_videoclips\<close> (app.py 148-154). The loop carries \<open>start\<close> and
  \<open>new_clips\<close>; \<open>clips[0]\<close> raises \<open>IndexError\<close> on the empty list.
\<close>

fun concatenate_loop :: "real \<Rightarrow> clip list \<Rightarrow> clip list \<Rightarrow> clip list \<times> real" where
  "concatenate_loop start new_clips [] = (new_clips, start)"
| "concatenate_loop start new_clips (c # rest) =
     concatenate_loop (start + clip_duration c) (new_clips @ [c\<lparr>clip_start := start\<rparr>]) rest"

definition concatenate_videoclips :: "clip list \<Rightarrow> error + composite" where
  "concatenate_videoclips clips =
     (case concatenate_loop 0 [] clips of (new_clips, start) \<Rightarrow>
        (case clips of
           [] \<Rightarrow> Inl IndexError
         | c0 # _ \<Rightarrow> Inr \<lparr>layers = new_clips, comp_size = clip_size c0, comp_duration = start\<rparr>))"

text \<open>
  The composite plays a layer at global time \<open>t\<close> when \<open>start \<le> t < start + duration\<close>
  and samples it at local time \<open>t - start\<close> (moviepy's \<open>is_playing\<close>; the compositor's
  "active" of the specification). \<open>playing\<close> lists the layers playing at \<open>t\<close> by index,
  each with its local time.
\<close>

definition is_playing :: "clip \<Rightarrow> real \<Rightarrow> bool" where
  "is_playing c t = (clip_start c \<le> t \<and> t < clip_start c + clip_duration c)"

definition playing :: "composite \<Rightarrow> real \<Rightarrow> (nat \<times> real) list" where
  "playing cvc t =
     map (\<lambda>k. (k, t - clip_start (layers cvc ! k)))
         (filter (\<lambda>k. is_playing (layers cvc ! k) t) [0..<length (layers cvc)])"

text \<open>
  The end of the main block (app.py 464-476): the program exits when no question was
  parsed, and only then builds one clip per question (\<open>mk\<close>) and concatenates them.
\<close>

definition main_sequence :: "('q \<Rightarrow> clip) \<Rightarrow> 'q list \<Rightarrow> error + composite" where
  "main_sequence mk questions =
     (if questions = [] then Inl (SystemExit ''No valid questions were entered.'')
      else concatenate_videoclips (map mk questions))"

section \<open>Chroma key\<close>

text \<open>
  \<open>remove_green\<close> (app.py 340-348). A frame is a list of rows of pixels with 8-bit
  channels. \<open>cv2.cvtColor(frame, cv2.COLOR_RGB2HSV)\<close> converts each pixel on its own;
  the conversion of one pixel is the parameter \<open>rgb2hsv\<close>.
\<close>

type_synonym rgb = "8 word \<times> 8 word \<times> 8 word"
type_synonym hsv = "8 word \<times> 8 word \<times> 8 word"
type_synonym rgba = "8 word \<times> 8 word \<times> 8 word \<times> 8 word"

definition lower_green :: hsv where
  "lower_green = (40, 40, 40)"

definition upper_green :: hsv where
  "upper_green = (90, 255, 255)"

text \<open>\<open>cv2.inRange\<close> on one pixel: 255 when every channel is within its bounds, else 0.\<close>

definition inRange :: "hsv \<Rightarrow> hsv \<Rightarrow> hsv \<Rightarrow> 8 word" where
  "inRange p lo hi =
     (case p of (h, s, v) \<Rightarrow> case lo of (lh, ls, lv) \<Rightarrow> case hi of (uh, us, uv) \<Rightarrow>
        if lh \<le> h \<and> h \<le> uh \<and> ls \<le> s \<and> s \<le> us \<and> lv \<le> v \<and> v \<le> uv then 255 else 0)"

text \<open>\<open>cv2.cvtColor(frame, cv2.COLOR_RGB2RGBA)\<close> on one pixel: alpha 255 added.\<close>

definition rgb2rgba :: "rgb \<Rightarrow> rgba" where
  "rgb2rgba p = (case p of (r, g, b) \<Rightarrow> (r, g, b, 255))"

text \<open>\<open>frame_rgba[:, :, 3] = alpha\<close> on one pixel.\<close>

definition set_alpha :: "rgba \<Rightarrow> 8 word \<Rightarrow> rgba" where
  "set_alpha p a = (case p of (r, g, b, _) \<Rightarrow> (r, g, b, a))"

definition remove_green :: "(rgb \<Rightarrow> hsv) \<Rightarrow> rgb list list \<Rightarrow> rgba list list" where
  "remove_green rgb2hsv frame =
     (let hsv = map (map rgb2hsv) frame;
          mask = map (map (\<lambda>p. inRange p lower_green upper_green)) hsv;
          alpha = map (map (\<lambda>m. if m = 255 then 0 else (255 :: 8 word))) mask;
          frame_rgba = map (map rgb2rgba) frame
      in map2 (map2 set_alpha) frame_rgba alpha)"

section \<open>The quiz clip: layout\<close>

text \<open>The components of a region tuple: \<open>box[0]\<close>, \<open>box[1]\<close>, \<open>box[2]\<close>, \<open>box[3]\<close>.\<close>

definition idx0 :: "region \<Rightarrow> int" where
  "idx0 r = (case r of (a, b, c, d) \<Rightarrow> a)"

definition idx1 :: "region \<Rightarrow> int" where
  "idx1 r = (case r of (a, b, c, d) \<Rightarrow> b)"

definition idx2 :: "region \<Rightarrow> int" where
  "idx2 r = (case r of (a, b, c, d) \<Rightarrow> c)"

definition idx3 :: "region \<Rightarrow> int" where
  "idx3 r = (case r of (a, b, c, d) \<Rightarrow> d)"

text \<open>
  The box geometry of \<open>make_quiz_clip\<close> (app.py 237-280), a function of the globals
  \<open>video_width\<close> and \<open>vertical_layout\<close>. The record holds the local variables that the
  rest of the function reads.
\<close>

record layout =
  margin :: int
  box_radius :: int
  q_box_region :: region
  opt_height :: int
  opt_a_box :: region
  opt_b_box :: region
  opt_c_box :: region
  opt_d_box :: region

definition timer_top_padding :: int where
  "timer_top_padding = 20"

definition timer_height :: int where
  "timer_height = 100"

definition layout_16_9 :: "int \<Rightarrow> layout" where
  "layout_16_9 video_width =
     (let margin = 50;
          box_radius = 20;
          q_box_top = timer_top_padding + timer_height + 20;
          q_box_height = 120;
          q_box_region = (margin, q_box_top, video_width - margin, q_box_top + q_box_height);
          opt_width = (video_width - (3 * margin)) div 2;
          opt_height = 60;
          opt_top_row_y = q_box_top + q_box_height + 30;
          opt_bottom_row_y = opt_top_row_y + opt_height + 30
      in \<lparr>margin = margin, box_radius = box_radius,
          q_box_region = q_box_region,
          opt_height = opt_height,
          opt_a_box = (margin, opt_top_row_y, margin + opt_width, opt_top_row_y + opt_height),
          opt_b_box = (video_width - margin - opt_width, opt_top_row_y, video_width - margin,
                       opt_top_row_y + opt_height),
          opt_c_box = (margin, opt_bottom_row_y, margin + opt_width, opt_bottom_row_y + opt_height),
          opt_d_box = (video_width - margin - opt_width, opt_bottom_row_y, video_width - margin,
                       opt_bottom_row_y + opt_height)\<rparr>)"

definition layout_9_16 :: "int \<Rightarrow> layout" where
  "layout_9_16 video_width =
     (let margin = 40;
          box_radius = 20;
          q_box_top = timer_top_padding + timer_height + 20;
          q_box_height = 150;
          q_box_region = (margin, q_box_top, video_width - margin, q_box_top + q_box_height);
          opt_height = 60;
          opt_spacing = 25;
          opt_a_box = (margin, q_box_top + q_box_height + 30, video_width - margin,
                   q_box_top + q_box_height + 30 + opt_height);
          opt_b_box = (margin, idx3 opt_a_box + opt_spacing, video_width - margin,
                   idx3 opt_a_box + opt_spacing + opt_height);
          opt_c_box = (margin, idx3 opt_b_box + opt_spacing, video_width - margin,
                   idx3 opt_b_box + opt_spacing + opt_height);
          opt_d_box = (margin, idx3 opt_c_box + opt_spacing, video_width - margin,
                   idx3 opt_c_box + opt_spacing + opt_height)
      in \<lparr>margin = margin, box_radius = box_radius,
          q_box_region = q_box_region,
          opt_height = opt_height,
          opt_a_box = opt_a_box, opt_b_box = opt_b_box, opt_c_box = opt_c_box, opt_d_box = opt_d_box\<rparr>)"

definition make_quiz_clip_layout :: "int \<Rightarrow> bool \<Rightarrow> layout" where
  "make_quiz_clip_layout video_width vertical_layout =
     (if \<not> vertical_layout then layout_16_9 video_width else layout_9_16 video_width)"

section \<open>The quiz clip: background image\<close>

definition label_margin :: int where
  "label_margin = 15"

definition option_label_font :: int where
  "option_label_font = 30"

definition option_font :: int where
  "option_font = 30"

definition text_color :: colour where
  "text_color = RGB 255 255 255"

definition box_outline_color :: colour where
  "box_outline_color = RGB 255 255 255"

text \<open>The text region of an option box, to the right of its label (app.py 300-304).\<close>

definition opt_text_region :: "font_file \<Rightarrow> region \<Rightarrow> region" where
  "opt_text_region fm box =
     (let label_width = text_width fm option_label_font ''X:''
      in (idx0 box + label_width + 2 * label_margin, idx1 box, idx2 box - label_margin, idx3 box))"

text \<open>The boxes and the labels drawn on the background (app.py 282-297).\<close>

definition background_box_ops :: "layout \<Rightarrow> draw_op list" where
  "background_box_ops lay =
     [RoundedRectangle (q_box_region lay) (box_radius lay) None (Some box_outline_color) 2,
      RoundedRectangle (opt_a_box lay) (box_radius lay) None (Some box_outline_color) 2,
      RoundedRectangle (opt_b_box lay) (box_radius lay) None (Some box_outline_color) 2,
      RoundedRectangle (opt_c_box lay) (box_radius lay) None (Some box_outline_color) 2,
      RoundedRectangle (opt_d_box lay) (box_radius lay) None (Some box_outline_color) 2,
      DrawText (idx0 (opt_a_box lay) + label_margin,
                idx1 (opt_a_box lay) + (opt_height lay - 30) div 2) ''A:'' option_label_font text_color,
      DrawText (idx0 (opt_b_box lay) + label_margin,
                idx1 (opt_b_box lay) + (opt_height lay - 30) div 2) ''B:'' option_label_font text_color,
      DrawText (idx0 (opt_c_box lay) + label_margin,
                idx1 (opt_c_box lay) + (opt_height lay - 30) div 2) ''C:'' option_label_font text_color,
      DrawText (idx0 (opt_d_box lay) + label_margin,
                idx1 (opt_d_box lay) + (opt_height lay - 30) div 2) ''D:'' option_label_font text_color]"

text \<open>The question and the four option texts drawn on the background (app.py 306-332).\<close>

definition background_text_ops ::
  "font_file \<Rightarrow> layout \<Rightarrow> string \<Rightarrow> string \<Rightarrow> string \<Rightarrow> string \<Rightarrow> string \<Rightarrow> draw_op list" where
  "background_text_ops fm lay question_text opt_a_text opt_b_text opt_c_text opt_d_text =
     (let question_font_size = 45;
          question_font = adjust_font_size question_text fm question_font_size
                            (idx2 (q_box_region lay) - idx0 (q_box_region lay) - 20)
                            (idx3 (q_box_region lay) - idx1 (q_box_region lay) - 20);
          question_inner_region =
            (idx0 (q_box_region lay) + 15, idx1 (q_box_region lay) + 10,
             idx2 (q_box_region lay) - 15, idx3 (q_box_region lay) - 10)
      in draw_centered_wrapped_text fm question_inner_region question_text question_font text_color
         @ draw_centered_wrapped_text fm (opt_text_region fm (opt_a_box lay))
             (if startswith opt_a_text ''a)'' then drop 2 opt_a_text else opt_a_text)
             option_font text_color
         @ draw_centered_wrapped_text fm (opt_text_region fm (opt_b_box lay))
             (if startswith opt_b_text ''b)'' then drop 2 opt_b_text else opt_b_text)
             option_font text_color
         @ draw_centered_wrapped_text fm (opt_text_region fm (opt_c_box lay))
             (if startswith opt_c_text ''c)'' then drop 2 opt_c_text else opt_c_text)
             option_font text_color
         @ draw_centered_wrapped_text fm (opt_text_region fm (opt_d_box lay))
             (if startswith opt_d_text ''d)'' then drop 2 opt_d_text else opt_d_text)
             option_font text_color)"

section \<open>The quiz clip: answer box and blinking overlay\<close>

text \<open>The answer box (app.py 364-374); \<open>None\<close> is Python's \<open>None\<close>.\<close>

definition find_answer_box :: "layout \<Rightarrow> string \<Rightarrow> region option" where
  "find_answer_box lay answer_text =
     (let answer_lower = strip (lower answer_text) in
      if contains ''a)'' answer_lower \<or> startswith answer_lower ''a'' then Some (opt_a_box lay)
      else if contains ''b)'' answer_lower \<or> startswith answer_lower ''b'' then Some (opt_b_box lay)
      else if contains ''c)'' answer_lower \<or> startswith answer_lower ''c'' then Some (opt_c_box lay)
      else if contains ''d)'' answer_lower \<or> startswith answer_lower ''d'' then Some (opt_d_box lay)
      else None)"

definition blink_duration :: int where
  "blink_duration = 3"

definition fps :: int where
  "fps = 24"

definition blink_frames :: int where
  "blink_frames = blink_duration * fps"

definition blink_period :: int where
  "blink_period = 8"

definition green_color :: colour where
  "green_color = RGBA 0 255 0 200"

text \<open>
  One pass of the loop over \<open>frame_num\<close> (app.py 383-432): what is drawn on the
  transparent overlay image of that frame. A tuple of four numbers is true in Python, so
  \<open>if answer_box and ...\<close> fails on \<open>None\<close> only.
\<close>

definition blink_frame ::
  "font_file \<Rightarrow> layout \<Rightarrow> string \<Rightarrow> string \<Rightarrow> string \<Rightarrow> string \<Rightarrow> region option \<Rightarrow> int \<Rightarrow> draw_op list" where
  "blink_frame fm lay opt_a_text opt_b_text opt_c_text opt_d_text answer_box frame_num =
     (case answer_box of
        None \<Rightarrow> []
      | Some box \<Rightarrow>
          if frame_num mod blink_period < blink_period div 2 then
            (let label_x = idx0 box + label_margin;
                 label_y = idx1 box + (opt_height lay - 30) div 2;
                 label_text =
                   (if box = opt_a_box lay then ''A:''
                    else if box = opt_b_box lay then ''B:''
                    else if box = opt_c_box lay then ''C:''
                    else if box = opt_d_box lay then ''D:''
                    else []);
                 option_text =
                   (if box = opt_a_box lay then
                      (if startswith opt_a_text ''a)'' then drop 2 opt_a_text else opt_a_text)
                    else if box = opt_b_box lay then
                      (if startswith opt_b_text ''b)'' then drop 2 opt_b_text else opt_b_text)
                    else if box = opt_c_box lay then
                      (if startswith opt_c_text ''c)'' then drop 2 opt_c_text else opt_c_text)
                    else if box = opt_d_box lay then
                      (if startswith opt_d_text ''d)'' then drop 2 opt_d_text else opt_d_text)
                    else []);
                 text_region =
                   (if box = opt_a_box lay then opt_text_region fm (opt_a_box lay)
                    else if box = opt_b_box lay then opt_text_region fm (opt_b_box lay)
                    else if box = opt_c_box lay then opt_text_region fm (opt_c_box lay)
                    else if box = opt_d_box lay then opt_text_region fm (opt_d_box lay)
                    else (0, 0, 0, 0))
             in RoundedRectangle box (box_radius lay) (Some green_color) (Some green_color) 3
                # DrawText (label_x, label_y) label_text option_label_font text_color
                # draw_centered_wrapped_text fm text_region option_text option_font text_color)
          else [])"

text \<open>The list \<open>blinking_frames\<close>: one frame per \<open>frame_num\<close> in \<open>range(blink_frames)\<close>.\<close>

definition blinking_frames ::
  "font_file \<Rightarrow> layout \<Rightarrow> string \<Rightarrow> string \<Rightarrow> string \<Rightarrow> string \<Rightarrow> region option \<Rightarrow> draw_op list list" where
  "blinking_frames fm lay opt_a_text opt_b_text opt_c_text opt_d_text answer_box =
     map (blink_frame fm lay opt_a_text opt_b_text opt_c_text opt_d_text answer_box)
         [0..blink_frames - 1]"

text \<open>Python's \<open>int(x)\<close> on a float: truncation towards zero.\<close>

definition py_int :: "real \<Rightarrow> int" where
  "py_int x = (if 0 \<le> x then \<lfloor>x\<rfloor> else \<lceil>x\<rceil>)"

text \<open>
  \<open>make_blink_frame\<close> (app.py 435-437) over a list of frames. Python's \<open>%\<close> by a
  positive number is never negative; by zero it raises.
\<close>

definition make_blink_frame :: "draw_op list list \<Rightarrow> real \<Rightarrow> error + draw_op list" where
  "make_blink_frame frames t =
     (if length frames = 0 then Inl ZeroDivisionError
      else let frame_idx = py_int (t * of_int fps) mod int (length frames)
           in Inr (frames ! nat frame_idx))"

text \<open>The blinking overlay of a clip: the answer box found, the frames built, one sampled.\<close>

definition blink_clip_frame ::
  "font_file \<Rightarrow> int \<Rightarrow> bool \<Rightarrow> string \<Rightarrow> string \<Rightarrow> string \<Rightarrow> string \<Rightarrow> string \<Rightarrow> real \<Rightarrow> error + draw_op list" where
  "blink_clip_frame fm video_width vertical_layout opt_a_text opt_b_text opt_c_text opt_d_text answer_text t =
     (let lay = make_quiz_clip_layout video_width vertical_layout;
          answer_box = find_answer_box lay answer_text
      in make_blink_frame
           (blinking_frames fm lay opt_a_text opt_b_text opt_c_text opt_d_text answer_box) t)"

section \<open>Predicates of the properties\<close>

text \<open>A text fits a region at a font size: its one-line box is within both dimensions.\<close>

definition fits :: "font_file \<Rightarrow> string \<Rightarrow> int \<Rightarrow> int \<Rightarrow> int \<Rightarrow> bool" where
  "fits fm text rw rh k = (text_width fm k text \<le> rw \<and> text_height fm k text \<le> rh)"

text \<open>
  A pixel is in the green range: hue 40 to 90, saturation 40 to 255, value 40 to 255,
  read as numbers 0..255.
\<close>

definition in_green_range :: "hsv \<Rightarrow> bool" where
  "in_green_range p = (case p of (h, s, v) \<Rightarrow>
     40 \<le> unat h \<and> unat h \<le> 90 \<and> 40 \<le> unat s \<and> unat s \<le> 255 \<and> 40 \<le> unat v \<and> unat v \<le> 255)"

text \<open>
  A region lies inside a canvas \<open>w\<close> by \<open>h\<close>: it is not empty and all its pixels, the
  right and bottom edges included, are pixels of the canvas.
\<close>

definition inside_canvas :: "int \<Rightarrow> int \<Rightarrow> region \<Rightarrow> bool" where
  "inside_canvas w h r = (case r of (x1, y1, x2, y2) \<Rightarrow>
     0 \<le> x1 \<and> x1 < x2 \<and> x2 < w \<and> 0 \<le> y1 \<and> y1 < y2 \<and> y2 < h)"

text \<open>Two regions overlap when they share a point, their edges included.\<close>

definition overlaps :: "region \<Rightarrow> region \<Rightarrow> bool" where
  "overlaps r s = (case r of (x1, y1, x2, y2) \<Rightarrow> case s of (u1, v1, u2, v2) \<Rightarrow>
     x1 \<le> u2 \<and> u1 \<le> x2 \<and> y1 \<le> v2 \<and> v1 \<le> y2)"

fun pairwise_disjoint :: "region list \<Rightarrow> bool" where
  "pairwise_disjoint [] = True"
| "pairwise_disjoint (r # rs) = (list_all (\<lambda>s. \<not> overlaps r s) rs \<and> pairwise_disjoint rs)"

text \<open>The question box and the four option boxes of a layout.\<close>

definition boxes :: "layout \<Rightarrow> region list" where
  "boxes lay = [q_box_region lay, opt_a_box lay, opt_b_box lay, opt_c_box lay, opt_d_box lay]"

text \<open>
  An answer, lower-cased and stripped, names an option: the option's marker occurs
  somewhere in it, or it begins with the option's letter.
\<close>

definition marked :: "string \<Rightarrow> string \<Rightarrow> string \<Rightarrow> bool" where
  "marked marker letter s = (sublist marker s \<or> prefix letter s)"

text \<open>
  An overlay frame is highlighted for a box: the first thing drawn on it is the box
  filled with the translucent green. A frame with nothing drawn is fully transparent.
\<close>

definition highlighted :: "layout \<Rightarrow> region \<Rightarrow> draw_op list \<Rightarrow> bool" where
  "highlighted lay box ops =
     (case ops of [] \<Rightarrow> False
      | d # _ \<Rightarrow> d = RoundedRectangle box (box_radius lay) (Some green_color) (Some green_color) 3)"

text \<open>
  The text shown for an option: the option string without its first two characters
  when it begins with the marker, else the option string.
\<close>

definition rendered_text :: "string \<Rightarrow> string \<Rightarrow> string" where
  "rendered_text marker s = (if prefix marker s then drop 2 s else s)"

text \<open>A text drawn in the text region of an option box, in the option font.\<close>

definition option_text_ops :: "font_file \<Rightarrow> region \<Rightarrow> string \<Rightarrow> draw_op list" where
  "option_text_ops fm box s =
     draw_centered_wrapped_text fm (opt_text_region fm box) s option_font text_color"

text \<open>A highlighted overlay frame: the green box, the label and the option text on top.\<close>

definition blink_on_ops :: "font_file \<Rightarrow> layout \<Rightarrow> region \<Rightarrow> string \<Rightarrow> string \<Rightarrow> draw_op list" where
  "blink_on_ops fm lay box label s =
     [RoundedRectangle box (box_radius lay) (Some green_color) (Some green_color) 3,
      DrawText (idx0 box + label_margin, idx1 box + (opt_height lay - 30) div 2) label
        option_label_font text_color]
     @ option_text_ops fm box s"

text \<open>The layouts of the two orientations the main block can select.\<close>

definition supported :: "layout list" where
  "supported = [make_quiz_clip_layout 1280 False, make_quiz_clip_layout 720 True]"

section \<open>Concrete inputs\<close>

text \<open>
  A font file for the examples: every character is 10 pixels wide and 20 high at every
  size.
\<close>

definition mono :: font_file where
  "mono sz s = (0, 0, 10 * int (length s), 20)"

text \<open>A font file whose characters are as wide and as high as the font size.\<close>

definition scaled :: font_file where
  "scaled sz s = (0, 0, sz * int (length s), sz)"

text \<open>A clip of 13 seconds, the duration of every quiz clip.\<close>

definition clip13 :: clip where
  "clip13 = \<lparr>clip_duration = 13, clip_start = 0, clip_size = (1280, 720)\<rparr>"

text \<open>A stand-in for the colour conversion: all three channels are the green channel.\<close>

definition hsv_test :: "rgb \<Rightarrow> hsv" where
  "hsv_test p = (case p of (r, g, b) \<Rightarrow> (g, g, g))"

section \<open>Word wrap\<close>

lemma break_word_loop_concat:
  "concat (break_word_loop fm font mw segs cur w) = concat segs @ cur @ w"
  by (induction w arbitrary: segs cur) (simp_all add: Let_def)

lemma break_word_loop_nonempty:
  "[] \<notin> set segs \<Longrightarrow> [] \<notin> set (break_word_loop fm font mw segs cur w)"
  by (induction w arbitrary: segs cur) (simp_all add: Let_def)

lemma split_acc_nonempty: "[] \<notin> set (split_acc cur s)"
  by (induction s arbitrary: cur) simp_all

lemma wrap_words_eq:
  "wrap_words fm font mw acc ws =
     acc @ concat (map (\<lambda>w. if text_width fm font w > mw then break_word fm w font mw else [w]) ws)"
  by (induction ws arbitrary: acc) simp_all

lemma join_sp_merge_hd:
  "join_sp ((a @ '' '' @ b) # ys) = join_sp (a # b # ys)"
  by (cases ys) simp_all

lemma join_sp_merge:
  "join_sp (xs @ (a @ '' '' @ b) # ys) = join_sp (xs @ a # b # ys)"
proof (induction xs rule: join_sp.induct)
  case 1
  show ?case using join_sp_merge_hd [of a b ys] by simp
next
  case (2 x)
  show ?case using join_sp_merge_hd [of a b ys] by simp
next
  case (3 x y zs)
  then show ?case by simp
qed

text \<open>
  The loop over the words keeps the text: the lines finished so far, the line being
  filled and the words still to come, joined by spaces, never change.
\<close>

lemma wrap_lines_join:
  "[] \<notin> set ws \<Longrightarrow>
   join_sp (wrap_lines fm font mw lines cur ws) =
   join_sp (lines @ (if cur = [] then [] else [cur]) @ ws)"
proof (induction ws arbitrary: lines cur)
  case Nil
  then show ?case by simp
next
  case (Cons w ws)
  then have w: "w \<noteq> []" and ws: "[] \<notin> set ws" by auto
  show ?case
  proof (cases "cur = []")
    case True
    with w ws Cons.IH show ?thesis by (simp add: Let_def)
  next
    case False
    with w ws Cons.IH [of lines "cur @ '' '' @ w"] Cons.IH [of "lines @ [cur]" w]
      join_sp_merge [of lines cur w ws]
    show ?thesis by (simp add: Let_def)
  qed
qed

lemma concat_map_single:
  "(\<forall>x \<in> set xs. f x = [x]) \<Longrightarrow> concat (map f xs) = xs"
  by (induction xs) simp_all

text \<open>
  C1. Word-wrap round trip. The lines drawn for a text, joined by single spaces, are
  the words of the text joined by single spaces, where each word wider than the region
  stands as its segments; when no word is wider than the region this is the
  whitespace-normalised text itself. The segments of a word, concatenated with nothing
  between them, are the word; no segment is empty; a word of one character is one
  segment whatever its width. Every function involved is total: nothing raises.
\<close>

theorem wrap_round_trip:
  "join_sp (wrapped_lines fm (x1, y1, x2, y2) text font) =
     join_sp (concat (map (\<lambda>w. if text_width fm font w > x2 - x1
                                then break_word fm w font (x2 - x1) else [w]) (split text)))
   \<and> ((\<forall>w \<in> set (split text). text_width fm font w \<le> x2 - x1) \<longrightarrow>
        join_sp (wrapped_lines fm (x1, y1, x2, y2) text font) = join_sp (split text))
   \<and> concat (break_word fm word font max_width) = word
   \<and> [] \<notin> set (break_word fm word font max_width)
   \<and> break_word fm [c] font max_width = [[c]]"
proof -
  let ?mw = "x2 - x1"
  let ?pieces = "\<lambda>w. if text_width fm font w > ?mw then break_word fm w font ?mw else [w]"
  have seg: "[] \<notin> set (break_word fm w font m)" for w m
    unfolding break_word_def by (rule break_word_loop_nonempty) simp
  have words: "wrap_words fm font ?mw [] (split text) = concat (map ?pieces (split text))"
    by (simp add: wrap_words_eq)
  have "[] \<notin> set (split text)"
    unfolding split_def by (rule split_acc_nonempty)
  then have ne: "[] \<notin> set (concat (map ?pieces (split text)))"
    using seg by (auto split: if_splits)
  have lines: "join_sp (wrapped_lines fm (x1, y1, x2, y2) text font) =
      join_sp (concat (map ?pieces (split text)))"
    using wrap_lines_join [OF ne, of fm font ?mw "[]" "[]"]
    by (simp add: wrapped_lines_def Let_def words)
  have fits: "join_sp (wrapped_lines fm (x1, y1, x2, y2) text font) = join_sp (split text)"
    if "\<forall>w \<in> set (split text). text_width fm font w \<le> ?mw"
  proof -
    from that have "\<forall>w \<in> set (split text). ?pieces w = [w]"
      by auto
    then have "concat (map ?pieces (split text)) = split text"
      by (rule concat_map_single)
    with lines show ?thesis by simp
  qed
  have cc: "concat (break_word fm word font max_width) = word"
    by (simp add: break_word_def break_word_loop_concat)
  have one: "break_word fm [c] font max_width = [[c]]"
    by (simp add: break_word_def Let_def)
  from lines fits cc seg one show ?thesis by blast
qed

text \<open>
  The theorem at a text whose words all fit a region 50 wide: three words on two lines.
\<close>

theorem wrap_round_trip_witness:
  "list_all (\<lambda>w. text_width mono 30 w \<le> 50 - 0) (split ''ab  cd ef'')
   \<and> join_sp (wrapped_lines mono (0, 0, 50, 100) ''ab  cd ef'' 30) = ''ab cd ef''
   \<and> wrapped_lines mono (0, 0, 50, 100) ''ab  cd ef'' 30 = [''ab cd'', ''ef'']"
proof -
  have sp: "split ''ab  cd ef'' = [''ab'', ''cd'', ''ef'']"
    by code_simp
  have h: "\<forall>w \<in> set (split ''ab  cd ef''). text_width mono 30 w \<le> 50 - 0"
    unfolding sp by (simp add: text_width_def mono_def)
  have l: "wrapped_lines mono (0, 0, 50, 100) ''ab  cd ef'' 30 = [''ab cd'', ''ef'']"
    by code_simp
  from wrap_round_trip [of mono 0 0 50 100 "''ab  cd ef''" 30] h
  have "join_sp (wrapped_lines mono (0, 0, 50, 100) ''ab  cd ef'' 30) = join_sp (split ''ab  cd ef'')"
    by blast
  with h l sp show ?thesis by (simp add: list_all_iff)
qed

text \<open>A word of seven characters in the same region is broken after its fifth.\<close>

lemma wrap_broken_example:
  "wrapped_lines mono (0, 0, 50, 100) ''ab  cd efghijk x'' 30 = [''ab cd'', ''efghi'', ''jk x'']"
  by code_simp

text \<open>In a region 5 wide no character fits: each one is emitted as a segment of its own.\<close>

lemma break_word_oversized_example:
  "break_word mono ''abc'' 30 5 = [''a'', ''b'', ''c'']"
  by code_simp

section \<open>Font-size search: the result\<close>

declare adjust_font_size_loop.simps [simp del]

lemma loop_step:
  "adjust_font_size_loop tx fm n rw rh =
     (if n > 5 then (if fits fm tx rw rh n then n else adjust_font_size_loop tx fm (n - 1) rw rh)
      else n)"
  by (subst adjust_font_size_loop.simps) (simp add: fits_def)

lemma loop_bounds:
  "5 \<le> n \<Longrightarrow> 5 \<le> adjust_font_size_loop tx fm n rw rh \<and> adjust_font_size_loop tx fm n rw rh \<le> n"
proof (induction tx fm n rw rh rule: adjust_font_size_loop.induct)
  case (1 tx fm n rw rh)
  show ?case
  proof (cases "n > 5 \<and> \<not> fits fm tx rw rh n")
    case True
    then have "5 \<le> adjust_font_size_loop tx fm (n - 1) rw rh \<and>
        adjust_font_size_loop tx fm (n - 1) rw rh \<le> n - 1"
      using "1.IH" by (simp add: fits_def)
    with True show ?thesis by (subst (1 2) loop_step) simp
  next
    case False
    with "1.prems" show ?thesis by (subst (1 2) loop_step) auto
  qed
qed

lemma loop_fits_or_floor:
  "5 \<le> n \<Longrightarrow> fits fm tx rw rh (adjust_font_size_loop tx fm n rw rh) \<or>
     adjust_font_size_loop tx fm n rw rh = 5"
proof (induction tx fm n rw rh rule: adjust_font_size_loop.induct)
  case (1 tx fm n rw rh)
  show ?case
  proof (cases "n > 5 \<and> \<not> fits fm tx rw rh n")
    case True
    then have "fits fm tx rw rh (adjust_font_size_loop tx fm (n - 1) rw rh) \<or>
        adjust_font_size_loop tx fm (n - 1) rw rh = 5"
      using "1.IH" by (simp add: fits_def)
    with True show ?thesis by (subst (1 2) loop_step) simp
  next
    case False
    with "1.prems" show ?thesis by (subst (1 2) loop_step) auto
  qed
qed

lemma loop_skips_misfits:
  "adjust_font_size_loop tx fm n rw rh < k \<Longrightarrow> k \<le> n \<Longrightarrow> \<not> fits fm tx rw rh k"
proof (induction tx fm n rw rh rule: adjust_font_size_loop.induct)
  case (1 tx fm n rw rh)
  show ?case
  proof (cases "n > 5 \<and> \<not> fits fm tx rw rh n")
    case True
    then have eq: "adjust_font_size_loop tx fm n rw rh = adjust_font_size_loop tx fm (n - 1) rw rh"
      by (subst loop_step) simp
    show ?thesis
    proof (cases "k = n")
      case True
      with \<open>n > 5 \<and> \<not> fits fm tx rw rh n\<close> show ?thesis by simp
    next
      case False
      with "1.prems" eq have "adjust_font_size_loop tx fm (n - 1) rw rh < k" "k \<le> n - 1"
        by simp_all
      with "1.IH" True show ?thesis by (simp add: fits_def)
    qed
  next
    case False
    then have "adjust_font_size_loop tx fm n rw rh = n"
      by (subst loop_step) auto
    with "1.prems" show ?thesis by simp
  qed
qed

text \<open>
  C5. Font-size search. With \<open>max_size\<close> at least the floor 5, the search returns a
  size between 5 and \<open>max_size\<close>; the text fits at that size or the size is the floor;
  no size above it up to \<open>max_size\<close> fits, so the sizes were tried downwards one by one;
  when some size above 5 and up to \<open>max_size\<close> fits, the result is above 5 and fits,
  hence is the largest such size; and a text that fits at \<open>max_size\<close> keeps it. The
  function is total: the search always returns.
\<close>

theorem adjust_font_size_search:
  assumes "5 \<le> max_size"
  shows "5 \<le> adjust_font_size text fm max_size rw rh
    \<and> adjust_font_size text fm max_size rw rh \<le> max_size
    \<and> (fits fm text rw rh (adjust_font_size text fm max_size rw rh)
        \<or> adjust_font_size text fm max_size rw rh = 5)
    \<and> (\<forall>k. adjust_font_size text fm max_size rw rh < k \<and> k \<le> max_size \<longrightarrow> \<not> fits fm text rw rh k)
    \<and> ((\<exists>k. 5 < k \<and> k \<le> max_size \<and> fits fm text rw rh k) \<longrightarrow>
          5 < adjust_font_size text fm max_size rw rh
          \<and> fits fm text rw rh (adjust_font_size text fm max_size rw rh))
    \<and> (fits fm text rw rh max_size \<and> 5 < max_size \<longrightarrow> adjust_font_size text fm max_size rw rh = max_size)"
proof -
  let ?s = "adjust_font_size text fm max_size rw rh"
  have s: "?s = adjust_font_size_loop text fm max_size rw rh"
    by (simp add: adjust_font_size_def)
  have b: "5 \<le> ?s \<and> ?s \<le> max_size"
    unfolding s using assms by (rule loop_bounds)
  have f: "fits fm text rw rh ?s \<or> ?s = 5"
    unfolding s using assms by (rule loop_fits_or_floor)
  have m: "\<not> fits fm text rw rh k" if "?s < k" "k \<le> max_size" for k
    using that unfolding s by (rule loop_skips_misfits)
  have e: "5 < ?s \<and> fits fm text rw rh ?s" if "5 < k" "k \<le> max_size" "fits fm text rw rh k" for k
  proof -
    from m [of k] that have "k \<le> ?s" by force
    with that f show ?thesis by auto
  qed
  have t: "?s = max_size" if "fits fm text rw rh max_size" "5 < max_size"
    using that unfolding s by (subst loop_step) simp
  from b f m e t show ?thesis by blast
qed

text \<open>The theorem at \<open>max_size\<close> 45: a text of five characters in a region 100 by 50.\<close>

theorem adjust_font_size_search_witness:
  "(5 :: int) \<le> 45
   \<and> adjust_font_size ''hello'' scaled 45 100 50 = 20
   \<and> 5 \<le> adjust_font_size ''hello'' scaled 45 100 50
   \<and> adjust_font_size ''hello'' scaled 45 100 50 \<le> 45
   \<and> fits scaled ''hello'' 100 50 20
   \<and> \<not> fits scaled ''hello'' 100 50 21"
proof -
  have v: "adjust_font_size ''hello'' scaled 45 100 50 = 20"
    by code_simp
  have h: "(5 :: int) \<le> 45" by simp
  from adjust_font_size_search [OF h, of "''hello''" scaled 100 50]
  have "5 \<le> adjust_font_size ''hello'' scaled 45 100 50
    \<and> adjust_font_size ''hello'' scaled 45 100 50 \<le> 45"
    by blast
  moreover have "fits scaled ''hello'' 100 50 20" "\<not> fits scaled ''hello'' 100 50 21"
    by (simp_all add: fits_def scaled_def text_width_def text_height_def)
  ultimately show ?thesis using v by simp
qed

text \<open>When nothing fits, the floor is returned.\<close>

lemma adjust_font_size_floor_example:
  "adjust_font_size ''hello'' scaled 45 10 50 = 5"
  by code_simp

text \<open>A \<open>max_size\<close> of 5 or less is returned as it is: the loop body never runs.\<close>

lemma adjust_font_size_at_most_floor:
  "max_size \<le> 5 \<Longrightarrow> adjust_font_size tx fm max_size rw rh = max_size"
  unfolding adjust_font_size_def by (subst loop_step) simp

section \<open>Clip concatenation: the timeline\<close>

lemma concatenate_loop_snd:
  "snd (concatenate_loop s acc cs) = s + sum_list (map clip_duration cs)"
  by (induction cs arbitrary: s acc) (simp_all add: add.assoc)


lemma concatenate_loop_length:
  "length (fst (concatenate_loop s acc cs)) = length acc + length cs"
  by (induction cs arbitrary: s acc) simp_all


lemma concatenate_loop_old:
  "k < length acc \<Longrightarrow> fst (concatenate_loop s acc cs) ! k = acc ! k"
  by (induction cs arbitrary: s acc) (simp_all add: nth_append)


lemma concatenate_loop_nth:
  "k < length cs \<Longrightarrow>
   fst (concatenate_loop s acc cs) ! (length acc + k) =
     (cs ! k)\<lparr>clip_start := s + sum_list (map clip_duration (take k cs))\<rparr>"
proof (induction cs arbitrary: s acc k)
  case Nil
  then show ?case by simp
next
  case (Cons c cs)
  show ?case
  proof (cases k)
    case 0
    then show ?thesis
      using concatenate_loop_old [of "length acc" "acc @ [c\<lparr>clip_start := s\<rparr>]" "s + clip_duration c" cs]
      by simp
  next
    case (Suc j)
    with Cons.prems have "j < length cs" by simp
    from Cons.IH [OF this, of "s + clip_duration c" "acc @ [c\<lparr>clip_start := s\<rparr>]"] Suc
    show ?thesis by (simp add: add.assoc)
  qed
qed


lemma prefix_sum_mono:
  fixes ds :: "real list"
  assumes "\<forall>d \<in> set ds. 0 \<le> d" "i \<le> j"
  shows "sum_list (take i ds) \<le> sum_list (take j ds)"
proof -
  have "take j ds = take i ds @ take (j - i) (drop i ds)"
    using assms(2) by (metis le_add_diff_inverse take_add)
  moreover have "0 \<le> sum_list (take (j - i) (drop i ds))"
    using assms(1) by (intro sum_list_nonneg) (auto dest!: in_set_takeD in_set_dropD)
  ultimately show ?thesis by simp
qed


lemma prefix_sum_Suc:
  fixes ds :: "real list"
  shows "k < length ds \<Longrightarrow> sum_list (take (Suc k) ds) = sum_list (take k ds) + ds ! k"
  by (simp add: take_Suc_conv_app_nth)


lemma prefix_sum_locate:
  fixes ds :: "real list"
  assumes "0 \<le> t" "t < sum_list ds"
  shows "\<exists>k < length ds. sum_list (take k ds) \<le> t \<and> t < sum_list (take (Suc k) ds)"
  using assms
proof (induction ds rule: rev_induct)
  case Nil
  then show ?case by simp
next
  case (snoc d ds)
  show ?case
  proof (cases "t < sum_list ds")
    case True
    with snoc obtain k where "k < length ds" "sum_list (take k ds) \<le> t" "t < sum_list (take (Suc k) ds)"
      by blast
    then show ?thesis by (intro exI [of _ k]) simp
  next
    case False
    then show ?thesis using snoc.prems by (intro exI [of _ "length ds"]) simp
  qed
qed


lemma filter_upt_single:
  assumes "k < n" and "P k" and "\<And>j. j < n \<Longrightarrow> P j \<Longrightarrow> j = k"
  shows "filter P [0..<n] = [k]"
  using assms
proof (induction n)
  case 0
  then show ?case by simp
next
  case (Suc n)
  have step: "filter P [0..<Suc n] = filter P [0..<n] @ (if P n then [n] else [])"
    by simp
  show ?case
  proof (cases "k = n")
    case True
    have "\<not> P j" if "j < n" for j
    proof
      assume "P j"
      moreover from that have "j < Suc n" by simp
      ultimately have "j = k" by (rule Suc.prems(3) [rotated])
      with True that show False by simp
    qed
    then have "filter P [0..<n] = []"
      by (simp add: filter_empty_conv)
    with True Suc.prems(2) step show ?thesis by simp
  next
    case False
    with Suc.prems(1) have kn: "k < n" by simp
    have "\<not> P n"
    proof
      assume "P n"
      then have "n = k" using Suc.prems(3) [of n] by simp
      with False show False by simp
    qed
    moreover have "filter P [0..<n] = [k]"
    proof (rule Suc.IH [OF kn Suc.prems(2)])
      fix j assume "j < n" "P j"
      then show "j = k" using Suc.prems(3) [of j] by simp
    qed
    ultimately show ?thesis using step by simp
  qed
qed

text \<open>
  C3. Clip concatenation. For a non-empty list of clips the sequencer returns a
  composite with one layer per clip, layer \<open>k\<close> being clip \<open>k\<close> started at the sum of
  the durations of the clips before it, and with the sum of all durations as its
  duration. When no duration is negative, at every time \<open>t\<close> from 0 up to the total
  exactly one layer plays: the list of playing layers is one index \<open>k\<close> with the
  local time \<open>t\<close> minus the start of clip \<open>k\<close>.
\<close>

theorem concatenate_geometry:
  assumes "clips \<noteq> []"
  shows "\<exists>cvc. concatenate_videoclips clips = Inr cvc
     \<and> length (layers cvc) = length clips
     \<and> (\<forall>k < length clips.
           layers cvc ! k = (clips ! k)\<lparr>clip_start := sum_list (map clip_duration (take k clips))\<rparr>)
     \<and> comp_duration cvc = sum_list (map clip_duration clips)
     \<and> ((\<forall>c \<in> set clips. 0 \<le> clip_duration c) \<longrightarrow>
          (\<forall>t. 0 \<le> t \<and> t < comp_duration cvc \<longrightarrow>
             (\<exists>k < length clips.
                playing cvc t = [(k, t - sum_list (map clip_duration (take k clips)))])))"
proof -
  let ?ds = "map clip_duration clips"
  let ?n = "length clips"
  define cvc where "cvc = \<lparr>layers = fst (concatenate_loop 0 [] clips),
    comp_size = clip_size (hd clips), comp_duration = snd (concatenate_loop 0 [] clips)\<rparr>"
  from assms have res: "concatenate_videoclips clips = Inr cvc"
    by (cases clips) (simp_all add: concatenate_videoclips_def cvc_def split: prod.splits)
  have len: "length (layers cvc) = ?n"
    by (simp add: cvc_def concatenate_loop_length)
  have nth: "layers cvc ! k = (clips ! k)\<lparr>clip_start := sum_list (map clip_duration (take k clips))\<rparr>"
    if "k < ?n" for k
    using concatenate_loop_nth [OF that, of 0 "[]"] by (simp add: cvc_def)
  have dur: "comp_duration cvc = sum_list ?ds"
    by (simp add: cvc_def concatenate_loop_snd)
  have disp: "\<exists>k < ?n. playing cvc t = [(k, t - sum_list (map clip_duration (take k clips)))]"
    if nonneg: "\<forall>c \<in> set clips. 0 \<le> clip_duration c" and t: "0 \<le> t" "t < comp_duration cvc" for t
  proof -
    have nn: "\<forall>d \<in> set ?ds. 0 \<le> d" using nonneg by auto
    have pl: "is_playing (layers cvc ! j) t \<longleftrightarrow>
        sum_list (take j ?ds) \<le> t \<and> t < sum_list (take (Suc j) ?ds)" if "j < ?n" for j
      using that nth [OF that] prefix_sum_Suc [of j ?ds]
      by (simp add: is_playing_def take_map)
    from prefix_sum_locate [of t ?ds] t dur
    obtain k where k: "k < ?n" "sum_list (take k ?ds) \<le> t" "t < sum_list (take (Suc k) ?ds)"
      by auto
    have uniq: "j = k" if j: "j < ?n" "is_playing (layers cvc ! j) t" for j
    proof (rule ccontr)
      assume "j \<noteq> k"
      then consider "Suc j \<le> k" | "Suc k \<le> j" by linarith
      then show False
      proof cases
        case 1
        from prefix_sum_mono [OF nn 1] pl [OF j(1)] j(2) k(2) show False by simp
      next
        case 2
        from prefix_sum_mono [OF nn 2] pl [OF j(1)] j(2) k(3) show False by simp
      qed
    qed
    have "filter (\<lambda>j. is_playing (layers cvc ! j) t) [0..<?n] = [k]"
    proof (rule filter_upt_single)
      show "k < ?n" by (rule k(1))
      show "is_playing (layers cvc ! k) t" using pl [OF k(1)] k(2,3) by simp
      show "j = k" if "j < ?n" "is_playing (layers cvc ! j) t" for j
        using that by (rule uniq)
    qed
    then have "playing cvc t = [(k, t - sum_list (map clip_duration (take k clips)))]"
      using nth [OF k(1)] by (simp add: playing_def len)
    with k(1) show ?thesis by blast
  qed
  from res len nth dur disp show ?thesis by blast
qed

lemma three_clips:
  "concatenate_videoclips [clip13, clip13, clip13] =
     Inr \<lparr>layers = [clip13\<lparr>clip_start := 0\<rparr>, clip13\<lparr>clip_start := 13\<rparr>, clip13\<lparr>clip_start := 26\<rparr>],
          comp_size = (1280, 720), comp_duration = 39\<rparr>"
  by (simp add: concatenate_videoclips_def clip13_def)

text \<open>
  The theorem at three clips of 13 seconds: a timeline of 39 seconds with starts 0, 13
  and 26, where time 14.5 is clip 1 at local time 1.5.
\<close>

theorem concatenate_geometry_witness:
  "[clip13, clip13, clip13] \<noteq> []
   \<and> list_all (\<lambda>c. 0 \<le> clip_duration c) [clip13, clip13, clip13]
   \<and> (\<exists>cvc. concatenate_videoclips [clip13, clip13, clip13] = Inr cvc
        \<and> comp_duration cvc = 39
        \<and> map clip_start (layers cvc) = [0, 13, 26]
        \<and> playing cvc 14.5 = [(1, 1.5)])"
proof -
  from concatenate_geometry [of "[clip13, clip13, clip13]"]
  obtain cvc where c: "concatenate_videoclips [clip13, clip13, clip13] = Inr cvc"
    and d: "comp_duration cvc = sum_list (map clip_duration [clip13, clip13, clip13])"
    and p: "(\<forall>c \<in> set [clip13, clip13, clip13]. 0 \<le> clip_duration c) \<longrightarrow>
          (\<forall>t. 0 \<le> t \<and> t < comp_duration cvc \<longrightarrow>
             (\<exists>k < length [clip13, clip13, clip13].
                playing cvc t = [(k, t - sum_list (map clip_duration (take k [clip13, clip13, clip13])))]))"
    by blast
  have d39: "comp_duration cvc = 39" using d by (simp add: clip13_def)
  have nn: "\<forall>c \<in> set [clip13, clip13, clip13]. 0 \<le> clip_duration c"
    by (simp add: clip13_def)
  with p have "\<forall>t. 0 \<le> t \<and> t < comp_duration cvc \<longrightarrow>
             (\<exists>k < length [clip13, clip13, clip13].
                playing cvc t = [(k, t - sum_list (map clip_duration (take k [clip13, clip13, clip13])))])"
    by blast
  from this [THEN spec, of "14.5"] d39
  obtain k where k: "k < 3"
      "playing cvc 14.5 = [(k, 14.5 - sum_list (map clip_duration (take k [clip13, clip13, clip13])))]"
    by auto
  from c three_clips have cv: "cvc = \<lparr>layers = [clip13\<lparr>clip_start := 0\<rparr>, clip13\<lparr>clip_start := 13\<rparr>, clip13\<lparr>clip_start := 26\<rparr>],
          comp_size = (1280, 720), comp_duration = 39\<rparr>" by simp
  have up: "[0..<3] = [0, 1, 2]" by (simp add: upt_conv_Cons)
  have pl: "playing cvc 14.5 = [(1, 1.5)]"
    by (simp add: cv playing_def is_playing_def clip13_def up)
  have st: "map clip_start (layers cvc) = [0, 13, 26]"
    by (simp add: cv)
  from k pl have "k = 1" by simp
  with k have "playing cvc 14.5 = [(1, 14.5 - sum_list (map clip_duration (take 1 [clip13, clip13, clip13])))]"
    by simp
  then have "playing cvc 14.5 = [(1, 1.5)]" by (simp add: clip13_def)
  with c d39 st show ?thesis by (simp add: clip13_def)
qed

text \<open>
  C4, as stated, fails: on the empty list the sequencer does not fail with
  \<open>EmptyInputError\<close>.
\<close>

theorem concatenate_empty_counterexample:
  "concatenate_videoclips [] \<noteq> Inl EmptyInputError"
  by (simp add: concatenate_videoclips_def)

text \<open>
  C4, amended. On the empty list the sequencer fails with \<open>IndexError\<close>, raised by
  \<open>clips[0]\<close>, and builds no timeline; on every non-empty list it returns a
  composite. The main block never passes it the empty list: with no question parsed it
  exits with its message first, and otherwise concatenates one clip per question.
\<close>

theorem concatenate_empty:
  "concatenate_videoclips [] = Inl IndexError
   \<and> (\<exists>cvc. concatenate_videoclips (c # cs) = Inr cvc)
   \<and> main_sequence mk [] = Inl (SystemExit ''No valid questions were entered.'')
   \<and> main_sequence mk (q # qs) = concatenate_videoclips (mk q # map mk qs)"
  by (simp add: concatenate_videoclips_def main_sequence_def split: prod.splits)

section \<open>Chroma key: the alpha channel\<close>

lemma inRange_green:
  "inRange p lower_green upper_green = (if in_green_range p then 255 else 0)"
proof -
  obtain h s v where p: "p = (h, s, v)" by (cases p)
  have "(40 :: 8 word) \<le> x \<longleftrightarrow> 40 \<le> unat x" for x
    by (simp add: word_le_nat_alt)
  moreover have "x \<le> (90 :: 8 word) \<longleftrightarrow> unat x \<le> 90" for x
    by (simp add: word_le_nat_alt)
  moreover have "x \<le> (255 :: 8 word) \<longleftrightarrow> unat x \<le> 255" for x
    by (simp add: word_le_nat_alt)
  ultimately show ?thesis
    by (simp add: p inRange_def lower_green_def upper_green_def in_green_range_def)
qed

lemma remove_green_rows:
  "remove_green rgb2hsv frame =
     map (map (\<lambda>p. set_alpha (rgb2rgba p)
        (if inRange (rgb2hsv p) lower_green upper_green = 255 then 0 else 255))) frame"
  by (simp add: remove_green_def Let_def map2_map_map comp_def)

text \<open>
  C6. Chroma key. The output has the shape of the input frame, and each of its pixels
  is the input pixel at the same place, colour channels unchanged, with an alpha channel
  that is 0 when hue, saturation and value of that pixel are all in the green range and
  255 otherwise. The output pixel is a function of the input pixel alone.
\<close>

theorem remove_green_alpha:
  "length (remove_green rgb2hsv frame) = length frame
   \<and> (\<forall>i < length frame. length (remove_green rgb2hsv frame ! i) = length (frame ! i)
        \<and> (\<forall>j < length (frame ! i).
              remove_green rgb2hsv frame ! i ! j =
                (case frame ! i ! j of (r, g, b) \<Rightarrow>
                   (r, g, b, if in_green_range (rgb2hsv (r, g, b)) then 0 else 255))))"
proof -
  have px: "set_alpha (rgb2rgba p) (if inRange (rgb2hsv p) lower_green upper_green = 255 then 0 else 255)
      = (case p of (r, g, b) \<Rightarrow> (r, g, b, if in_green_range (rgb2hsv (r, g, b)) then 0 else 255))" for p
    by (cases p) (simp add: inRange_green set_alpha_def rgb2rgba_def)
  show ?thesis
    by (simp add: remove_green_rows px)
qed

text \<open>The theorem at a frame of one row: a pixel in the range and one outside it.\<close>

theorem remove_green_alpha_witness:
  "(0 :: nat) < length [[(0, 50, 0), (200, 30, 10)] :: rgb list]
   \<and> (1 :: nat) < length ([[(0, 50, 0), (200, 30, 10)] :: rgb list] ! 0)
   \<and> in_green_range (hsv_test (0, 50, 0))
   \<and> \<not> in_green_range (hsv_test (200, 30, 10))
   \<and> remove_green hsv_test [[(0, 50, 0), (200, 30, 10)]] ! 0 ! 0 = (0, 50, 0, 0)
   \<and> remove_green hsv_test [[(0, 50, 0), (200, 30, 10)]] ! 0 ! 1 = (200, 30, 10, 255)"
proof -
  let ?F = "[[(0, 50, 0), (200, 30, 10)]] :: rgb list list"
  have g: "in_green_range (hsv_test (0, 50, 0))" "\<not> in_green_range (hsv_test (200, 30, 10))"
    by (simp_all add: in_green_range_def hsv_test_def)
  from remove_green_alpha [of hsv_test ?F]
  have "\<forall>j < length (?F ! 0). remove_green hsv_test ?F ! 0 ! j =
      (case ?F ! 0 ! j of (r, g, b) \<Rightarrow> (r, g, b, if in_green_range (hsv_test (r, g, b)) then 0 else 255))"
    by simp
  then have "remove_green hsv_test ?F ! 0 ! 0 =
      (case ?F ! 0 ! 0 of (r, g, b) \<Rightarrow> (r, g, b, if in_green_range (hsv_test (r, g, b)) then 0 else 255))"
    and "remove_green hsv_test ?F ! 0 ! 1 =
      (case ?F ! 0 ! 1 of (r, g, b) \<Rightarrow> (r, g, b, if in_green_range (hsv_test (r, g, b)) then 0 else 255))"
    by simp_all
  with g show ?thesis by simp
qed

section \<open>Layout: the boxes\<close>

lemma layout_16_9_boxes:
  "boxes (layout_16_9 video_width) =
     [(50, 140, video_width - 50, 260),
      (50, 290, 50 + (video_width - 150) div 2, 350),
      (video_width - 50 - (video_width - 150) div 2, 290, video_width - 50, 350),
      (50, 380, 50 + (video_width - 150) div 2, 440),
      (video_width - 50 - (video_width - 150) div 2, 380, video_width - 50, 440)]"
  by (simp add: boxes_def layout_16_9_def Let_def timer_top_padding_def timer_height_def)

lemma layout_9_16_boxes:
  "boxes (layout_9_16 video_width) =
     [(40, 140, video_width - 40, 290),
      (40, 320, video_width - 40, 380),
      (40, 405, video_width - 40, 465),
      (40, 490, video_width - 40, 550),
      (40, 575, video_width - 40, 635)]"
  by (simp add: boxes_def layout_9_16_def Let_def timer_top_padding_def timer_height_def idx3_def)

text \<open>
  C7. Layout. In both supported orientations, 1280 by 720 with the 16:9 layout and 720
  by 1280 with the 9:16 layout, the question box and the four option boxes lie inside
  the canvas. The five boxes are pairwise disjoint, in either layout and for every
  \<open>video_width\<close>. Every top edge after the timer is the bottom edge of the box above it
  plus a fixed gap: 20 below the timer, 30 below the question box, and 30 (16:9) or 25
  (9:16) between option rows.
\<close>

theorem layout_invariant:
  "list_all (inside_canvas 1280 720) (boxes (make_quiz_clip_layout 1280 False))
   \<and> list_all (inside_canvas 720 1280) (boxes (make_quiz_clip_layout 720 True))
   \<and> pairwise_disjoint (boxes (make_quiz_clip_layout video_width vertical_layout))
   \<and> (let lay = make_quiz_clip_layout video_width False in
        idx1 (q_box_region lay) = timer_top_padding + timer_height + 20
        \<and> idx1 (opt_a_box lay) = idx3 (q_box_region lay) + 30
        \<and> idx1 (opt_b_box lay) = idx3 (q_box_region lay) + 30
        \<and> idx1 (opt_c_box lay) = idx3 (opt_a_box lay) + 30
        \<and> idx1 (opt_d_box lay) = idx3 (opt_b_box lay) + 30)
   \<and> (let lay = make_quiz_clip_layout video_width True in
        idx1 (q_box_region lay) = timer_top_padding + timer_height + 20
        \<and> idx1 (opt_a_box lay) = idx3 (q_box_region lay) + 30
        \<and> idx1 (opt_b_box lay) = idx3 (opt_a_box lay) + 25
        \<and> idx1 (opt_c_box lay) = idx3 (opt_b_box lay) + 25
        \<and> idx1 (opt_d_box lay) = idx3 (opt_c_box lay) + 25)"
proof -
  have in_w: "list_all (inside_canvas 1280 720) (boxes (make_quiz_clip_layout 1280 False))"
    by (simp add: make_quiz_clip_layout_def layout_16_9_boxes inside_canvas_def)
  have in_t: "list_all (inside_canvas 720 1280) (boxes (make_quiz_clip_layout 720 True))"
    by (simp add: make_quiz_clip_layout_def layout_9_16_boxes inside_canvas_def)
  have dis_w: "pairwise_disjoint (boxes (layout_16_9 video_width))"
    unfolding layout_16_9_boxes by (simp add: overlaps_def) presburger
  have dis_t: "pairwise_disjoint (boxes (layout_9_16 video_width))"
    unfolding layout_9_16_boxes by (simp add: overlaps_def)
  have dis: "pairwise_disjoint (boxes (make_quiz_clip_layout video_width vertical_layout))"
    using dis_w dis_t by (simp add: make_quiz_clip_layout_def)
  have add_w: "let lay = make_quiz_clip_layout video_width False in
        idx1 (q_box_region lay) = timer_top_padding + timer_height + 20
        \<and> idx1 (opt_a_box lay) = idx3 (q_box_region lay) + 30
        \<and> idx1 (opt_b_box lay) = idx3 (q_box_region lay) + 30
        \<and> idx1 (opt_c_box lay) = idx3 (opt_a_box lay) + 30
        \<and> idx1 (opt_d_box lay) = idx3 (opt_b_box lay) + 30"
    by (simp add: make_quiz_clip_layout_def layout_16_9_def Let_def idx1_def idx3_def)
  have add_t: "let lay = make_quiz_clip_layout video_width True in
        idx1 (q_box_region lay) = timer_top_padding + timer_height + 20
        \<and> idx1 (opt_a_box lay) = idx3 (q_box_region lay) + 30
        \<and> idx1 (opt_b_box lay) = idx3 (opt_a_box lay) + 25
        \<and> idx1 (opt_c_box lay) = idx3 (opt_b_box lay) + 25
        \<and> idx1 (opt_d_box lay) = idx3 (opt_c_box lay) + 25"
    by (simp add: make_quiz_clip_layout_def layout_9_16_def Let_def idx1_def idx3_def)
  from in_w in_t dis add_w add_t show ?thesis by blast
qed

section \<open>Answer box: the order of the tests\<close>

lemma startswith_prefix: "startswith s p \<longleftrightarrow> prefix p s"
  by (induction s p rule: startswith.induct) auto

lemma contains_sublist: "contains p s \<longleftrightarrow> sublist p s"
  by (induction s) (simp_all add: startswith_prefix sublist_Cons_right)

lemma dropWhile_snoc_keep:
  "\<not> P a \<Longrightarrow> \<exists>zs. dropWhile P (ys @ [a]) = zs @ [a]"
  by (induction ys) auto

lemma strip_keeps_head:
  assumes "\<not> isspace a"
  shows "\<exists>zs. strip (a # xs) = a # zs"
proof -
  from dropWhile_snoc_keep [of isspace a "rev xs"] assms
  obtain zs where "dropWhile isspace (rev xs @ [a]) = zs @ [a]" by blast
  with assms show ?thesis by (simp add: strip_def)
qed

lemma lower_char_a: "lower_char CHR ''a'' = CHR ''a''" "lower_char CHR ''A'' = CHR ''a''"
  by code_simp+

lemma not_space_a: "\<not> isspace CHR ''a''"
  by (simp add: isspace_def)

text \<open>
  C9. Answer-box resolution. On the lower-cased, stripped answer the options are tried
  in the order A, B, C, D, and the first one whose marker occurs anywhere in the answer
  or whose letter begins it gives the box; no box is found exactly when all four tests
  fail. An answer text that begins with the letter a (or A) gives option A whatever
  follows.
\<close>

theorem find_answer_box_order:
  "find_answer_box lay answer_text =
     (let s = strip (lower answer_text) in
      if marked ''a)'' ''a'' s then Some (opt_a_box lay)
      else if marked ''b)'' ''b'' s then Some (opt_b_box lay)
      else if marked ''c)'' ''c'' s then Some (opt_c_box lay)
      else if marked ''d)'' ''d'' s then Some (opt_d_box lay)
      else None)
   \<and> (find_answer_box lay answer_text = None \<longleftrightarrow>
        (let s = strip (lower answer_text) in
         \<not> marked ''a)'' ''a'' s \<and> \<not> marked ''b)'' ''b'' s
         \<and> \<not> marked ''c)'' ''c'' s \<and> \<not> marked ''d)'' ''d'' s))
   \<and> find_answer_box lay (CHR ''a'' # rest) = Some (opt_a_box lay)
   \<and> find_answer_box lay (CHR ''A'' # rest) = Some (opt_a_box lay)"
proof -
  have eq: "find_answer_box lay tx =
     (let s = strip (lower tx) in
      if marked ''a)'' ''a'' s then Some (opt_a_box lay)
      else if marked ''b)'' ''b'' s then Some (opt_b_box lay)
      else if marked ''c)'' ''c'' s then Some (opt_c_box lay)
      else if marked ''d)'' ''d'' s then Some (opt_d_box lay)
      else None)" for tx
    by (simp add: find_answer_box_def marked_def contains_sublist startswith_prefix Let_def)
  have none: "find_answer_box lay answer_text = None \<longleftrightarrow>
        (let s = strip (lower answer_text) in
         \<not> marked ''a)'' ''a'' s \<and> \<not> marked ''b)'' ''b'' s
         \<and> \<not> marked ''c)'' ''c'' s \<and> \<not> marked ''d)'' ''d'' s)"
    by (simp add: eq Let_def)
  have a: "find_answer_box lay (c # rest) = Some (opt_a_box lay)" if "lower_char c = CHR ''a''" for c
  proof -
    from strip_keeps_head [OF not_space_a, of "lower rest"]
    obtain zs where "strip (CHR ''a'' # lower rest) = CHR ''a'' # zs" by blast
    with that have "strip (lower (c # rest)) = CHR ''a'' # zs" by (simp add: lower_def)
    then show ?thesis by (simp add: eq marked_def)
  qed
  from eq [of answer_text] none a [OF lower_char_a(1)] a [OF lower_char_a(2)]
  show ?thesis by blast
qed

text \<open>
  Examples: the usual answer line, one with spaces and an upper-case marker, one whose
  text contains the marker of an earlier option, and one with no marker at all.
\<close>

lemma find_answer_box_examples:
  "find_answer_box lay ''d) Madrid'' = Some (opt_d_box lay)"
  "find_answer_box lay ''  B) Berlin '' = Some (opt_b_box lay)"
  "find_answer_box lay ''d) Canada)'' = Some (opt_a_box lay)"
  "find_answer_box lay ''Madrid'' = None"
  by code_simp+

section \<open>Blinking overlay: the frames\<close>

lemma blinking_frames_length:
  "length (blinking_frames fm lay a b c d answer_box) = 72"
  by (simp add: blinking_frames_def blink_frames_def blink_duration_def fps_def)

lemma blinking_frames_nth:
  "i < 72 \<Longrightarrow> blinking_frames fm lay a b c d answer_box ! i =
     blink_frame fm lay a b c d answer_box (int i)"
  by (simp add: blinking_frames_def blink_frames_def blink_duration_def fps_def)

lemma blink_frame_None: "blink_frame fm lay a b c d None n = []"
  by (simp add: blink_frame_def)

lemma blink_frame_off:
  "\<not> n mod 8 < 4 \<Longrightarrow> blink_frame fm lay a b c d answer_box n = []"
  by (simp add: blink_frame_def blink_period_def split: option.splits)

lemma blink_frame_on:
  "n mod 8 < 4 \<Longrightarrow> highlighted lay box (blink_frame fm lay a b c d (Some box) n)"
  by (simp add: blink_frame_def blink_period_def highlighted_def Let_def)

lemma int_mod8: "int i mod 8 < 4 \<longleftrightarrow> i mod 8 < 4"
proof -
  have "int i mod 8 = int (i mod 8)" by (simp add: zmod_int)
  then show ?thesis by simp
qed

lemma make_blink_frame_index:
  assumes "0 \<le> t" and "length frames = 72"
  shows "make_blink_frame frames t = Inr (frames ! nat (\<lfloor>t * 24\<rfloor> mod 72))"
proof -
  from assms(1) have "0 \<le> t * 24" by simp
  then have "py_int (t * 24) = \<lfloor>t * 24\<rfloor>" by (simp add: py_int_def)
  with assms(2) show ?thesis by (simp add: make_blink_frame_def fps_def)
qed

text \<open>
  C2. Blink periodicity and frame selection, for an answer box that was found. The list
  of overlay frames has 72 = 3 * 24 entries. Frame \<open>i\<close> is highlighted exactly when
  \<open>i mod (4 + 4) < 4\<close> and is fully transparent otherwise, so frames 0 to 3 are on and
  4 to 7 are off. At a time \<open>t\<close> of at least 0 the frame returned is the one at index
  \<open>floor (t * 24) mod 72\<close>; it depends on \<open>t\<close> and the frame list only, so asking
  again at the same \<open>t\<close> gives the same frame.
\<close>

theorem blink_periodicity:
  assumes "answer_box = Some box"
  shows "int (length (blinking_frames fm lay a b c d answer_box)) = blink_duration * fps
    \<and> length (blinking_frames fm lay a b c d answer_box) = 72
    \<and> (\<forall>i < 72. highlighted lay box (blinking_frames fm lay a b c d answer_box ! i)
                    \<longleftrightarrow> i mod (4 + 4) < 4)
    \<and> (\<forall>i < 72. blinking_frames fm lay a b c d answer_box ! i = []
                    \<longleftrightarrow> \<not> i mod (4 + 4) < 4)
    \<and> map (\<lambda>i. highlighted lay box (blinking_frames fm lay a b c d answer_box ! i))
         [0, 1, 2, 3, 4, 5, 6, 7]
       = [True, True, True, True, False, False, False, False]
    \<and> (\<forall>t \<ge> 0. make_blink_frame (blinking_frames fm lay a b c d answer_box) t
          = Inr (blinking_frames fm lay a b c d answer_box ! nat (\<lfloor>t * 24\<rfloor> mod 72)))"
proof -
  let ?frames = "blinking_frames fm lay a b c d answer_box"
  have len: "length ?frames = 72" by (rule blinking_frames_length)
  have len': "int (length ?frames) = blink_duration * fps"
    by (simp add: len blink_duration_def fps_def)
  have on: "highlighted lay box (?frames ! i)" if "i < 72" "i mod 8 < 4" for i
    using that assms by (simp add: blinking_frames_nth blink_frame_on int_mod8)
  have off: "?frames ! i = []" if "i < 72" "\<not> i mod 8 < 4" for i
    using that by (simp add: blinking_frames_nth blink_frame_off int_mod8)
  have nh: "\<not> highlighted lay box []" by (simp add: highlighted_def)
  have ne: "?frames ! i \<noteq> []" if "i < 72" "i mod 8 < 4" for i
    using on [OF that] nh by auto
  have hl: "highlighted lay box (?frames ! i) \<longleftrightarrow> i mod (4 + 4) < 4" if "i < 72" for i
    using on [OF that] off [OF that] nh by (cases "i mod 8 < 4") simp_all
  have em: "?frames ! i = [] \<longleftrightarrow> \<not> i mod (4 + 4) < 4" if "i < 72" for i
    using ne [OF that] off [OF that] by (cases "i mod 8 < 4") simp_all
  have first: "map (\<lambda>i. highlighted lay box (?frames ! i)) [0, 1, 2, 3, 4, 5, 6, 7]
       = [True, True, True, True, False, False, False, False]"
    by (simp add: hl)
  have sel: "make_blink_frame ?frames t = Inr (?frames ! nat (\<lfloor>t * 24\<rfloor> mod 72))" if "0 \<le> t" for t
    using that len by (rule make_blink_frame_index)
  from len len' hl em first sel show ?thesis by blast
qed

text \<open>
  The theorem at the answer \<open>d) Madrid\<close> in the 16:9 layout: frame 3 is on, frame 4
  is off, and time 0.5 selects frame 12.
\<close>

theorem blink_periodicity_witness:
  "find_answer_box (make_quiz_clip_layout 1280 False) ''d) Madrid''
     = Some (opt_d_box (make_quiz_clip_layout 1280 False))
   \<and> length (blinking_frames mono (make_quiz_clip_layout 1280 False)
        ''a) Paris'' ''b) Berlin'' ''c) London'' ''d) Madrid''
        (find_answer_box (make_quiz_clip_layout 1280 False) ''d) Madrid'')) = 72
   \<and> highlighted (make_quiz_clip_layout 1280 False) (opt_d_box (make_quiz_clip_layout 1280 False))
        (blinking_frames mono (make_quiz_clip_layout 1280 False)
          ''a) Paris'' ''b) Berlin'' ''c) London'' ''d) Madrid''
          (find_answer_box (make_quiz_clip_layout 1280 False) ''d) Madrid'') ! 3)
   \<and> blinking_frames mono (make_quiz_clip_layout 1280 False)
        ''a) Paris'' ''b) Berlin'' ''c) London'' ''d) Madrid''
        (find_answer_box (make_quiz_clip_layout 1280 False) ''d) Madrid'') ! 4 = []
   \<and> make_blink_frame (blinking_frames mono (make_quiz_clip_layout 1280 False)
        ''a) Paris'' ''b) Berlin'' ''c) London'' ''d) Madrid''
        (find_answer_box (make_quiz_clip_layout 1280 False) ''d) Madrid'')) 0.5
      = Inr (blinking_frames mono (make_quiz_clip_layout 1280 False)
        ''a) Paris'' ''b) Berlin'' ''c) London'' ''d) Madrid''
        (find_answer_box (make_quiz_clip_layout 1280 False) ''d) Madrid'') ! 12)"
proof -
  let ?lay = "make_quiz_clip_layout 1280 False"
  let ?frames = "blinking_frames mono ?lay ''a) Paris'' ''b) Berlin'' ''c) London'' ''d) Madrid''
        (find_answer_box ?lay ''d) Madrid'')"
  have h: "find_answer_box ?lay ''d) Madrid'' = Some (opt_d_box ?lay)"
    by code_simp
  note p = blink_periodicity [OF h, of mono ?lay "''a) Paris''" "''b) Berlin''" "''c) London''" "''d) Madrid''"]
  from p have len: "length ?frames = 72" by blast
  from p have hl: "\<forall>i < 72. highlighted ?lay (opt_d_box ?lay) (?frames ! i) \<longleftrightarrow> i mod (4 + 4) < 4"
    by blast
  from p have em: "\<forall>i < 72. ?frames ! i = [] \<longleftrightarrow> \<not> i mod (4 + 4) < 4"
    by blast
  from p have sel: "\<forall>t \<ge> 0. make_blink_frame ?frames t = Inr (?frames ! nat (\<lfloor>t * 24\<rfloor> mod 72))"
    by blast
  from hl have h3: "highlighted ?lay (opt_d_box ?lay) (?frames ! 3)" by simp
  from em have e4: "?frames ! 4 = []" by simp
  from sel have "make_blink_frame ?frames 0.5 = Inr (?frames ! nat (\<lfloor>0.5 * 24 :: real\<rfloor> mod 72))"
    by simp
  then have s: "make_blink_frame ?frames 0.5 = Inr (?frames ! 12)" by simp
  from h len h3 e4 s show ?thesis by blast
qed

text \<open>
  C8. Graceful degradation. When no answer box is found for the answer text, every one
  of the 72 overlay frames has nothing drawn on it, and sampling the overlay at any
  time returns such a fully transparent frame, never an error.
\<close>

theorem blink_degenerate:
  assumes "find_answer_box (make_quiz_clip_layout video_width vertical_layout) answer_text = None"
  shows "blinking_frames fm (make_quiz_clip_layout video_width vertical_layout) a b c d
           (find_answer_box (make_quiz_clip_layout video_width vertical_layout) answer_text)
         = replicate 72 []
       \<and> blink_clip_frame fm video_width vertical_layout a b c d answer_text t = Inr []"
proof -
  let ?lay = "make_quiz_clip_layout video_width vertical_layout"
  have fr: "blinking_frames fm ?lay a b c d None = replicate 72 []"
  proof (rule nth_equalityI)
    show "length (blinking_frames fm ?lay a b c d None) = length (replicate 72 [])"
      by (simp add: blinking_frames_length)
    show "blinking_frames fm ?lay a b c d None ! i = replicate 72 [] ! i"
      if "i < length (blinking_frames fm ?lay a b c d None)" for i
      using that by (simp add: blinking_frames_length blinking_frames_nth blink_frame_None)
  qed
  have idx: "nat (k mod 72) < 72" for k :: int
    by simp
  have "make_blink_frame (replicate 72 []) t = Inr []"
    using idx by (simp add: make_blink_frame_def Let_def)
  with fr assms show ?thesis by (simp add: blink_clip_frame_def Let_def)
qed

text \<open>The theorem at the answer \<open>Madrid\<close>, which names no option.\<close>

theorem blink_degenerate_witness:
  "find_answer_box (make_quiz_clip_layout 1280 False) ''Madrid'' = None
   \<and> blink_clip_frame mono 1280 False ''a) Paris'' ''b) Berlin'' ''c) London'' ''d) Madrid''
        ''Madrid'' 1.3 = Inr []"
proof -
  have h: "find_answer_box (make_quiz_clip_layout 1280 False) ''Madrid'' = None"
    by code_simp
  from blink_degenerate [OF h, of mono "''a) Paris''" "''b) Berlin''" "''c) London''" "''d) Madrid''" "1.3"] h
  show ?thesis by blast
qed

section \<open>Option texts: the marker\<close>

lemma background_text_ops_options:
  "\<exists>q_ops. background_text_ops fm lay q a b c d =
     q_ops @ option_text_ops fm (opt_a_box lay) (rendered_text ''a)'' a)
           @ option_text_ops fm (opt_b_box lay) (rendered_text ''b)'' b)
           @ option_text_ops fm (opt_c_box lay) (rendered_text ''c)'' c)
           @ option_text_ops fm (opt_d_box lay) (rendered_text ''d)'' d)"
  by (simp add: background_text_ops_def Let_def option_text_ops_def rendered_text_def
      startswith_prefix)

lemma blink_frame_slots:
  assumes "distinct [opt_a_box lay, opt_b_box lay, opt_c_box lay, opt_d_box lay]"
  shows "blink_frame fm lay a b c d (Some (opt_a_box lay)) n =
           (if n mod 8 < 4 then blink_on_ops fm lay (opt_a_box lay) ''A:'' (rendered_text ''a)'' a) else [])"
    and "blink_frame fm lay a b c d (Some (opt_b_box lay)) n =
           (if n mod 8 < 4 then blink_on_ops fm lay (opt_b_box lay) ''B:'' (rendered_text ''b)'' b) else [])"
    and "blink_frame fm lay a b c d (Some (opt_c_box lay)) n =
           (if n mod 8 < 4 then blink_on_ops fm lay (opt_c_box lay) ''C:'' (rendered_text ''c)'' c) else [])"
    and "blink_frame fm lay a b c d (Some (opt_d_box lay)) n =
           (if n mod 8 < 4 then blink_on_ops fm lay (opt_d_box lay) ''D:'' (rendered_text ''d)'' d) else [])"
  using assms
  by (auto simp add: blink_frame_def blink_period_def Let_def blink_on_ops_def option_text_ops_def
      rendered_text_def startswith_prefix)

lemma supported_distinct:
  "distinct [opt_a_box (make_quiz_clip_layout 1280 False), opt_b_box (make_quiz_clip_layout 1280 False),
             opt_c_box (make_quiz_clip_layout 1280 False), opt_d_box (make_quiz_clip_layout 1280 False)]"
  "distinct [opt_a_box (make_quiz_clip_layout 720 True), opt_b_box (make_quiz_clip_layout 720 True),
             opt_c_box (make_quiz_clip_layout 720 True), opt_d_box (make_quiz_clip_layout 720 True)]"
  by (simp_all add: make_quiz_clip_layout_def layout_16_9_def layout_9_16_def Let_def idx3_def
      timer_top_padding_def timer_height_def)

text \<open>
  C10. Option-label prefix stripping. On the background the four option texts are drawn
  after the question, each in the text region of its box, and each is the option string
  without its first two characters exactly when the string begins with the lower-case
  marker of its slot, else the string unchanged. In both supported layouts a highlighted
  overlay frame for the box of a slot draws that same text in that same region, under
  the slot's label. A marker in upper case, with another separator or of another slot
  is not removed.
\<close>

theorem option_text_rendered:
  "(\<exists>q_ops. background_text_ops fm lay q a b c d =
      q_ops @ option_text_ops fm (opt_a_box lay) (rendered_text ''a)'' a)
            @ option_text_ops fm (opt_b_box lay) (rendered_text ''b)'' b)
            @ option_text_ops fm (opt_c_box lay) (rendered_text ''c)'' c)
            @ option_text_ops fm (opt_d_box lay) (rendered_text ''d)'' d))
   \<and> list_all (\<lambda>sl.
        blink_frame fm sl a b c d (Some (opt_a_box sl)) n =
          (if n mod 8 < 4 then blink_on_ops fm sl (opt_a_box sl) ''A:'' (rendered_text ''a)'' a) else [])
        \<and> blink_frame fm sl a b c d (Some (opt_b_box sl)) n =
          (if n mod 8 < 4 then blink_on_ops fm sl (opt_b_box sl) ''B:'' (rendered_text ''b)'' b) else [])
        \<and> blink_frame fm sl a b c d (Some (opt_c_box sl)) n =
          (if n mod 8 < 4 then blink_on_ops fm sl (opt_c_box sl) ''C:'' (rendered_text ''c)'' c) else [])
        \<and> blink_frame fm sl a b c d (Some (opt_d_box sl)) n =
          (if n mod 8 < 4 then blink_on_ops fm sl (opt_d_box sl) ''D:'' (rendered_text ''d)'' d) else []))
      supported
   \<and> rendered_text ''a)'' ''a) Paris'' = '' Paris''
   \<and> rendered_text ''a)'' ''A) Paris'' = ''A) Paris''
   \<and> rendered_text ''a)'' ''a. Paris'' = ''a. Paris''
   \<and> rendered_text ''b)'' ''a) Paris'' = ''a) Paris''"
proof -
  note bg = background_text_ops_options [of fm lay q a b c d]
  note w = blink_frame_slots [OF supported_distinct(1), of fm a b c d n]
  note t = blink_frame_slots [OF supported_distinct(2), of fm a b c d n]
  have ex: "rendered_text ''a)'' ''a) Paris'' = '' Paris''"
    "rendered_text ''a)'' ''A) Paris'' = ''A) Paris''"
    "rendered_text ''a)'' ''a. Paris'' = ''a. Paris''"
    "rendered_text ''b)'' ''a) Paris'' = ''a) Paris''"
    by (simp_all add: rendered_text_def)
  have la: "list_all (\<lambda>sl.
        blink_frame fm sl a b c d (Some (opt_a_box sl)) n =
          (if n mod 8 < 4 then blink_on_ops fm sl (opt_a_box sl) ''A:'' (rendered_text ''a)'' a) else [])
        \<and> blink_frame fm sl a b c d (Some (opt_b_box sl)) n =
          (if n mod 8 < 4 then blink_on_ops fm sl (opt_b_box sl) ''B:'' (rendered_text ''b)'' b) else [])
        \<and> blink_frame fm sl a b c d (Some (opt_c_box sl)) n =
          (if n mod 8 < 4 then blink_on_ops fm sl (opt_c_box sl) ''C:'' (rendered_text ''c)'' c) else [])
        \<and> blink_frame fm sl a b c d (Some (opt_d_box sl)) n =
          (if n mod 8 < 4 then blink_on_ops fm sl (opt_d_box sl) ''D:'' (rendered_text ''d)'' d) else []))
      supported"
    unfolding supported_def using w t by simp
  from bg la ex show ?thesis by blast
qed

text \<open>An option with an upper-case marker is drawn with the marker in it.\<close>

lemma uppercase_marker_drawn:
  "option_text_ops mono (opt_a_box (make_quiz_clip_layout 1280 False)) (rendered_text ''a)'' ''A) Paris'')
     = [DrawText (310, 310) ''A) Paris'' 30 (RGB 255 255 255)]"
  by code_simp

end
